theory Spec2Isabelle
  imports Main "HOL-Library.Sublist"
begin

section \<open>Python values and the operations the script applies to them\<close>

text \<open>
  The script \<^verbatim>\<open>process_pr_data.py\<close> reads JSON documents with \<^verbatim>\<open>ijson\<close> and works on
  the Python objects the parser builds: \<^verbatim>\<open>None\<close>, \<^verbatim>\<open>bool\<close>, \<^verbatim>\<open>int\<close>, \<^verbatim>\<open>str\<close>, \<^verbatim>\<open>list\<close>
  and \<^verbatim>\<open>dict\<close>. An object holds the items of its dict in insertion order, so its keys are
  distinct. Numbers with a fraction (which the parser returns as \<^verbatim>\<open>Decimal\<close>) are not
  represented.
\<close>

datatype json =
    JNull
  | JBool bool
  | JInt int
  | JStr string
  | JArr "json list"
  | JObj "(string \<times> json) list"

text \<open>The exception classes that the operations below can raise.\<close>

datatype error =
    IncompleteJSONError
  | JSONError
  | TypeError
  | AttributeError
  | KeyError
  | OSError

text \<open>Truth value testing, as \<^verbatim>\<open>not body\<close>, \<^verbatim>\<open>and\<close>, \<^verbatim>\<open>or\<close> and \<^verbatim>\<open>if\<close> apply it.\<close>

fun truthy :: "json \<Rightarrow> bool" where
  "truthy JNull = False"
| "truthy (JBool b) = b"
| "truthy (JInt n) = (n \<noteq> 0)"
| "truthy (JStr s) = (s \<noteq> [])"
| "truthy (JArr xs) = (xs \<noteq> [])"
| "truthy (JObj kvs) = (kvs \<noteq> [])"

text \<open>
  \<^verbatim>\<open>for x in v\<close>: a list gives its elements, a dict its keys, a str its characters (each a
  str of length one); anything else is not iterable.
\<close>

fun py_iter :: "json \<Rightarrow> error + json list" where
  "py_iter (JArr xs) = Inr xs"
| "py_iter (JObj kvs) = Inr (map (\<lambda>kv. JStr (fst kv)) kvs)"
| "py_iter (JStr s) = Inr (map (\<lambda>c. JStr [c]) s)"
| "py_iter v = Inl TypeError"

text \<open>\<^verbatim>\<open>v.get(key, default)\<close>: only a dict has the method.\<close>

fun py_get :: "json \<Rightarrow> string \<Rightarrow> json \<Rightarrow> error + json" where
  "py_get (JObj kvs) key dflt = Inr (case map_of kvs key of None \<Rightarrow> dflt | Some v \<Rightarrow> v)"
| "py_get v key dflt = Inl AttributeError"

text \<open>
  \<^verbatim>\<open>key in v\<close> for a str \<^verbatim>\<open>key\<close>: key membership in a dict, element membership in a list,
  substring test in a str; \<^verbatim>\<open>None\<close>, \<^verbatim>\<open>bool\<close> and \<^verbatim>\<open>int\<close> are not containers.
\<close>

fun py_in :: "string \<Rightarrow> json \<Rightarrow> error + bool" where
  "py_in key (JObj kvs) = Inr (key \<in> set (map fst kvs))"
| "py_in key (JArr xs) = Inr (JStr key \<in> set xs)"
| "py_in key (JStr s) = Inr (sublist key s)"
| "py_in key v = Inl TypeError"

text \<open>\<^verbatim>\<open>v[key]\<close> for a str \<^verbatim>\<open>key\<close>: only a dict can be indexed by a str.\<close>

fun py_getitem :: "json \<Rightarrow> string \<Rightarrow> error + json" where
  "py_getitem (JObj kvs) key = (case map_of kvs key of None \<Rightarrow> Inl KeyError | Some v \<Rightarrow> Inr v)"
| "py_getitem v key = Inl TypeError"

text \<open>\<^verbatim>\<open>acc += v\<close> for an int \<^verbatim>\<open>acc\<close>: an int or a bool (an int subclass) can be added.\<close>

fun py_add :: "int \<Rightarrow> json \<Rightarrow> error + int" where
  "py_add acc (JInt n) = Inr (acc + n)"
| "py_add acc (JBool b) = Inr (acc + (if b then 1 else 0))"
| "py_add acc v = Inl TypeError"

text \<open>
  \<^verbatim>\<open>str(v)\<close> as an f-string applies it to a replacement field. A str formats as itself.
  How Python prints any other object is not part of the script and is the parameter
  \<open>fmt\<close> of everything that formats.
\<close>

definition py_str :: "(json \<Rightarrow> string) \<Rightarrow> json \<Rightarrow> string" where
  "py_str fmt v = (case v of JStr s \<Rightarrow> s | _ \<Rightarrow> fmt v)"

text \<open>
  \<^verbatim>\<open>s.replace(old, new)\<close>: scanning from the left, every occurrence of \<^verbatim>\<open>old\<close> that does
  not overlap an earlier one is replaced. With an empty \<^verbatim>\<open>old\<close>, \<^verbatim>\<open>new\<close> is inserted before
  every character and at the end.
\<close>

function py_replace :: "string \<Rightarrow> string \<Rightarrow> string \<Rightarrow> string" where
  "py_replace old new [] = (if old = [] then new else [])"
| "py_replace old new (c # cs) =
     (if old = [] then new @ c # py_replace old new cs
      else if prefix old (c # cs) then new @ py_replace old new (drop (length old) (c # cs))
      else c # py_replace old new cs)"
  by pat_completeness auto
termination
  by (relation "measure (\<lambda>(old, new, s). length s)") auto


section \<open>The input files\<close>

text \<open>
  \<^verbatim>\<open>ijson.kvitems(f, '')\<close> yields the key/value pairs of the top-level object one by one,
  in document order, a repeated key once for each time it occurs, and raises when it meets
  a fault in the document. What it does on a given file is described by the pairs it
  yields and the exception, if any, that ends the iteration. A path either does not exist,
  or exists and cannot be opened (\<^verbatim>\<open>open\<close> raises), or is read in this way.
\<close>

datatype json_file =
    Missing
  | Unreadable
  | Readable "(string \<times> json) list" "error option"

text \<open>
  The task-type table \<^verbatim>\<open>gpt_conventional_commits.csv\<close> is loaded by \<^verbatim>\<open>pandas\<close>. Either the
  path does not exist, or one of the calls of lines 66 to 70 raises (the file cannot be
  read or parsed, a column \<^verbatim>\<open>id\<close> or \<^verbatim>\<open>type\<close> is missing), or they give the rows of the
  table, each with its \<^verbatim>\<open>id\<close> converted to a str and its \<^verbatim>\<open>type\<close>.
\<close>

datatype csv_file =
    CsvMissing
  | CsvError
  | CsvRows "(string \<times> string) list"

record agent_dir =
  gpt_conventional_commits :: csv_file
  pr_commit_details :: json_file
  pr_comments :: json_file
  pr_review_comments :: json_file
  pr_reviews :: json_file

section \<open>Extraction of comments (lines 10 to 49)\<close>

text \<open>The dict appended to \<^verbatim>\<open>extracted_entries\<close> at lines 37 to 43.\<close>

record extracted_entry =
  PR_ID :: string
  Comment_Body :: json
  User_Login :: json
  User_Type :: json
  Comment_Category :: string

text \<open>The expression \<^verbatim>\<open>pr_filename.replace('.json', '')\<close> of lines 22 and 89.\<close>

definition pr_id_of :: "string \<Rightarrow> string" where
  "pr_id_of pr_filename = py_replace ''.json'' [] pr_filename"

text \<open>
  Lines 24 to 31: the body of an entry, replaced for a review summary by the review state
  when the body is falsy and the state is truthy.
\<close>

definition entry_body :: "(json \<Rightarrow> string) \<Rightarrow> string \<Rightarrow> json \<Rightarrow> error + json" where
  "entry_body fmt comment_category entry =
     (case py_get entry ''body'' (JStr []) of
        Inl e \<Rightarrow> Inl e
      | Inr body \<Rightarrow>
          if comment_category = ''Review_Summary'' then
            if \<not> truthy body then
              (case py_get entry ''state'' JNull of
                 Inl e \<Rightarrow> Inl e
               | Inr st \<Rightarrow>
                   if truthy st then
                     (case py_getitem entry ''state'' of
                        Inl e \<Rightarrow> Inl e
                      | Inr s \<Rightarrow> Inr (JStr (''Review State: '' @ py_str fmt s)))
                   else Inr body)
            else Inr body
          else Inr body)"

text \<open>Lines 24 to 43: one pass of the inner loop, giving the dict to append or raising.\<close>

definition extract_entry ::
  "(json \<Rightarrow> string) \<Rightarrow> string \<Rightarrow> string \<Rightarrow> json \<Rightarrow> error + extracted_entry" where
  "extract_entry fmt comment_category pr_id entry =
     (case entry_body fmt comment_category entry of
        Inl e \<Rightarrow> Inl e
      | Inr body \<Rightarrow>
          (case py_get entry ''user'' JNull of
             Inl e \<Rightarrow> Inl e
           | Inr u \<Rightarrow>
               let user = (if truthy u then u else JObj []) in
               (case py_get user ''login'' (JStr ''N/A'') of
                  Inl e \<Rightarrow> Inl e
                | Inr user_login \<Rightarrow>
                    (case py_get user ''type'' (JStr ''N/A'') of
                       Inl e \<Rightarrow> Inl e
                     | Inr user_type \<Rightarrow>
                         Inr \<lparr>PR_ID = pr_id, Comment_Body = body, User_Login = user_login,
                              User_Type = user_type,
                              Comment_Category = comment_category\<rparr>))))"

text \<open>
  The two loops of lines 21 to 43 run inside the \<^verbatim>\<open>try\<close> of line 19: an exception leaves
  both, and what was appended to \<^verbatim>\<open>extracted_entries\<close> before it stays there. Each loop
  returns the list and the exception that ended it, if any.
\<close>

fun entries_loop ::
  "(json \<Rightarrow> string) \<Rightarrow> string \<Rightarrow> string \<Rightarrow> json list \<Rightarrow> extracted_entry list
     \<Rightarrow> extracted_entry list \<times> error option" where
  "entries_loop fmt comment_category pr_id [] extracted_entries = (extracted_entries, None)"
| "entries_loop fmt comment_category pr_id (entry # rest) extracted_entries =
     (case extract_entry fmt comment_category pr_id entry of
        Inl e \<Rightarrow> (extracted_entries, Some e)
      | Inr d \<Rightarrow> entries_loop fmt comment_category pr_id rest (extracted_entries @ [d]))"

fun kvitems_loop ::
  "(json \<Rightarrow> string) \<Rightarrow> string \<Rightarrow> (string \<times> json) list \<Rightarrow> error option
     \<Rightarrow> extracted_entry list \<Rightarrow> extracted_entry list \<times> error option" where
  "kvitems_loop fmt comment_category [] fault extracted_entries = (extracted_entries, fault)"
| "kvitems_loop fmt comment_category ((pr_filename, entries_list) # rest) fault
       extracted_entries =
     (case py_iter entries_list of
        Inl e \<Rightarrow> (extracted_entries, Some e)
      | Inr entries \<Rightarrow>
          (case entries_loop fmt comment_category (pr_id_of pr_filename) entries
                  extracted_entries of
             (extracted_entries', Some e) \<Rightarrow> (extracted_entries', Some e)
           | (extracted_entries', None) \<Rightarrow>
               kvitems_loop fmt comment_category rest fault extracted_entries'))"

text \<open>
  \<^verbatim>\<open>_extract_comments_with_details\<close>. A path that does not exist gives the empty list.
  \<^verbatim>\<open>open\<close> at line 17 is outside the \<^verbatim>\<open>try\<close>, so its exception leaves the function.
  Both \<^verbatim>\<open>except\<close> clauses (lines 44 to 47) print and go on to the \<^verbatim>\<open>return\<close>.
\<close>

definition extract_comments_with_details ::
  "(json \<Rightarrow> string) \<Rightarrow> json_file \<Rightarrow> string \<Rightarrow> error + extracted_entry list" where
  "extract_comments_with_details fmt file_path comment_category =
     (case file_path of
        Missing \<Rightarrow> Inr []
      | Unreadable \<Rightarrow> Inl OSError
      | Readable kvs fault \<Rightarrow> Inr (fst (kvitems_loop fmt comment_category kvs fault [])))"

section \<open>Processing of one agent (lines 51 to 143)\<close>

text \<open>Lines 62 to 75: the task types. A later row with the same id replaces an earlier one.\<close>

definition load_task_types :: "csv_file \<Rightarrow> (string \<rightharpoonup> string)" where
  "load_task_types task_types_path =
     (case task_types_path of
        CsvMissing \<Rightarrow> Map.empty
      | CsvError \<Rightarrow> Map.empty
      | CsvRows rows \<Rightarrow> fold (\<lambda>row m. m(fst row \<mapsto> snd row)) rows Map.empty)"

text \<open>The dict stored in \<^verbatim>\<open>pr_loc_data\<close> at lines 96 to 100.\<close>

record loc_info =
  Total_LOC_Change :: int
  Additions :: int
  Deletions :: int

text \<open>Lines 92 to 95: the sums over the commits of one pull request.\<close>

fun commits_loop :: "json list \<Rightarrow> int \<Rightarrow> int \<Rightarrow> error + (int \<times> int)" where
  "commits_loop [] total_additions total_deletions = Inr (total_additions, total_deletions)"
| "commits_loop (commit # rest) total_additions total_deletions =
     (case py_in ''stats'' commit of
        Inl e \<Rightarrow> Inl e
      | Inr False \<Rightarrow> commits_loop rest total_additions total_deletions
      | Inr True \<Rightarrow>
          (case py_getitem commit ''stats'' of
             Inl e \<Rightarrow> Inl e
           | Inr stats \<Rightarrow>
               if stats = JNull then commits_loop rest total_additions total_deletions
               else
                 (case py_get stats ''additions'' (JInt 0) of
                    Inl e \<Rightarrow> Inl e
                  | Inr a \<Rightarrow>
                      (case py_add total_additions a of
                         Inl e \<Rightarrow> Inl e
                       | Inr total_additions' \<Rightarrow>
                           (case py_get stats ''deletions'' (JInt 0) of
                              Inl e \<Rightarrow> Inl e
                            | Inr d \<Rightarrow>
                                (case py_add total_deletions d of
                                   Inl e \<Rightarrow> Inl e
                                 | Inr total_deletions' \<Rightarrow>
                                     commits_loop rest total_additions' total_deletions'))))))"

text \<open>
  Lines 87 to 100: the loop over the pairs of the commit-details document. It is not inside
  a \<^verbatim>\<open>try\<close>: an exception of the iterator or of the loop body leaves the function.
\<close>

fun loc_loop ::
  "(string \<times> json) list \<Rightarrow> error option \<Rightarrow> (string \<rightharpoonup> loc_info)
     \<Rightarrow> error + (string \<rightharpoonup> loc_info)" where
  "loc_loop [] fault pr_loc_data = (case fault of None \<Rightarrow> Inr pr_loc_data | Some e \<Rightarrow> Inl e)"
| "loc_loop ((pr_filename, commits) # rest) fault pr_loc_data =
     (case py_iter commits of
        Inl e \<Rightarrow> Inl e
      | Inr cs \<Rightarrow>
          (case commits_loop cs 0 0 of
             Inl e \<Rightarrow> Inl e
           | Inr (total_additions, total_deletions) \<Rightarrow>
               loc_loop rest fault
                 (pr_loc_data(pr_id_of pr_filename \<mapsto>
                    \<lparr>Total_LOC_Change = total_additions + total_deletions,
                     Additions = total_additions,
                     Deletions = total_deletions\<rparr>))))"

text \<open>Lines 78 to 103: \<^verbatim>\<open>pr_loc_data\<close> as it is when the merge starts.\<close>

definition calculate_loc :: "json_file \<Rightarrow> error + (string \<rightharpoonup> loc_info)" where
  "calculate_loc commit_details_path =
     (case commit_details_path of
        Missing \<Rightarrow> Inr Map.empty
      | Unreadable \<Rightarrow> Inl OSError
      | Readable kvs fault \<Rightarrow> loc_loop kvs fault Map.empty)"

text \<open>The dict appended to \<^verbatim>\<open>merged_output\<close> at lines 130 to 141.\<close>

record interaction =
  Agent :: string
  PR_ID :: string
  Task_Type :: string
  Total_LOC_Change :: int
  Additions :: int
  Deletions :: int
  Comment_Category :: string
  Comment_Body :: json
  User_Login :: json
  User_Type :: json

text \<open>Lines 127 to 141: one pass of the merge loop.\<close>

definition merge_entry ::
  "string \<Rightarrow> (string \<rightharpoonup> string) \<Rightarrow> (string \<rightharpoonup> loc_info) \<Rightarrow> extracted_entry \<Rightarrow> interaction" where
  "merge_entry agent_name pr_task_map pr_loc_data entry =
     (let pr_id = extracted_entry.PR_ID entry;
          loc_info = (case pr_loc_data pr_id of
                        None \<Rightarrow> \<lparr>loc_info.Total_LOC_Change = 0, loc_info.Additions = 0,
                                 loc_info.Deletions = 0\<rparr>
                      | Some v \<Rightarrow> v)
      in \<lparr>Agent = agent_name,
          PR_ID = pr_id,
          Task_Type = (case pr_task_map pr_id of None \<Rightarrow> ''N/A'' | Some t \<Rightarrow> t),
          Total_LOC_Change = loc_info.Total_LOC_Change loc_info,
          Additions = loc_info.Additions loc_info,
          Deletions = loc_info.Deletions loc_info,
          Comment_Category = extracted_entry.Comment_Category entry,
          Comment_Body = extracted_entry.Comment_Body entry,
          User_Login = extracted_entry.User_Login entry,
          User_Type = extracted_entry.User_Type entry\<rparr>)"

text \<open>
  \<^verbatim>\<open>process_agent_data\<close>: the task types, the lines of code, the three extractions in the
  order of lines 110, 115 and 120, then the merge. The first exception ends it.
\<close>

definition process_agent_data ::
  "(json \<Rightarrow> string) \<Rightarrow> string \<Rightarrow> agent_dir \<Rightarrow> error + interaction list" where
  "process_agent_data fmt agent_name agent_path =
     (let pr_task_map = load_task_types (gpt_conventional_commits agent_path) in
      case calculate_loc (pr_commit_details agent_path) of
        Inl e \<Rightarrow> Inl e
      | Inr pr_loc_data \<Rightarrow>
          (case extract_comments_with_details fmt (pr_comments agent_path) ''PR_Comment'' of
             Inl e \<Rightarrow> Inl e
           | Inr c1 \<Rightarrow>
               (case extract_comments_with_details fmt (pr_review_comments agent_path)
                       ''Review_Comment'' of
                  Inl e \<Rightarrow> Inl e
                | Inr c2 \<Rightarrow>
                    (case extract_comments_with_details fmt (pr_reviews agent_path)
                            ''Review_Summary'' of
                       Inl e \<Rightarrow> Inl e
                     | Inr c3 \<Rightarrow>
                         Inr (map (merge_entry agent_name pr_task_map pr_loc_data)
                                (c1 @ c2 @ c3))))))"

section \<open>The batch (lines 145 to 175)\<close>

text \<open>
  How a run of \<^verbatim>\<open>main\<close> that raises nothing ends: with the message of line 151, of line 157
  or of line 174 and no output file, or with the output file written from the rows of
  \<^verbatim>\<open>all_data\<close> (lines 169 to 172).
\<close>

datatype outcome =
    BaseDirNotFound
  | NoAgentDirs
  | NoDataProcessed
  | OutputSaved "interaction list"

fun output_csv :: "outcome \<Rightarrow> interaction list option" where
  "output_csv (OutputSaved rows) = Some rows"
| "output_csv out = None"

text \<open>Lines 161 to 165: the loop over the agent directories.\<close>

fun agents_loop ::
  "(json \<Rightarrow> string) \<Rightarrow> (string \<times> agent_dir) list \<Rightarrow> interaction list
     \<Rightarrow> error + interaction list" where
  "agents_loop fmt [] all_data = Inr all_data"
| "agents_loop fmt ((agent_name, agent_path) # rest) all_data =
     (case process_agent_data fmt agent_name agent_path of
        Inl e \<Rightarrow> Inl e
      | Inr agent_processed_data \<Rightarrow> agents_loop fmt rest (all_data @ agent_processed_data))"

text \<open>
  \<^verbatim>\<open>main\<close>. The base directory is absent, or holds the agent directories that
  \<^verbatim>\<open>os.listdir\<close> and \<^verbatim>\<open>os.path.isdir\<close> give, in the order they give them.
\<close>

definition main :: "(json \<Rightarrow> string) \<Rightarrow> (string \<times> agent_dir) list option \<Rightarrow> error + outcome" where
  "main fmt base_dir =
     (case base_dir of
        None \<Rightarrow> Inr BaseDirNotFound
      | Some agent_dirs \<Rightarrow>
          if agent_dirs = [] then Inr NoAgentDirs
          else
            (case agents_loop fmt agent_dirs [] of
               Inl e \<Rightarrow> Inl e
             | Inr all_data \<Rightarrow>
                 if all_data \<noteq> [] then Inr (OutputSaved all_data) else Inr NoDataProcessed))"

section \<open>Reference definitions\<close>

text \<open>
  The definitions of this section are not taken from the script. They say, in the words of
  the specification, what the loops are expected to compute, and the theorems compare the
  loops with them.
\<close>

text \<open>\<^verbatim>\<open>sep.join(pieces)\<close>: the pieces with the separator between them.\<close>

fun py_join :: "string \<Rightarrow> string list \<Rightarrow> string" where
  "py_join sep [] = []"
| "py_join sep [p] = p"
| "py_join sep (p # q # ps) = p @ sep @ py_join sep (q # ps)"

text \<open>
  A commit object as the commit-details file is meant to hold it: an object whose
  \<^verbatim>\<open>stats\<close> field is absent, null, or an object whose \<^verbatim>\<open>additions\<close> and \<^verbatim>\<open>deletions\<close>, where
  present, are integers.
\<close>

fun int_or_absent :: "json option \<Rightarrow> bool" where
  "int_or_absent None = True"
| "int_or_absent (Some (JInt n)) = True"
| "int_or_absent (Some v) = False"

fun commit_object :: "json \<Rightarrow> bool" where
  "commit_object (JObj kvs) =
     (case map_of kvs ''stats'' of
        None \<Rightarrow> True
      | Some JNull \<Rightarrow> True
      | Some (JObj st) \<Rightarrow>
          int_or_absent (map_of st ''additions'') \<and> int_or_absent (map_of st ''deletions'')
      | Some v \<Rightarrow> False)"
| "commit_object v = False"

text \<open>The non-null \<^verbatim>\<open>stats\<close> field of a commit, if it has one.\<close>

fun stats_of :: "json \<Rightarrow> json option" where
  "stats_of (JObj kvs) =
     (case map_of kvs ''stats'' of None \<Rightarrow> None | Some JNull \<Rightarrow> None | Some v \<Rightarrow> Some v)"
| "stats_of v = None"

text \<open>An integer field of a \<^verbatim>\<open>stats\<close> object, 0 when it is absent.\<close>

fun field_or_0 :: "string \<Rightarrow> json \<Rightarrow> int" where
  "field_or_0 name (JObj st) = (case map_of st name of Some (JInt n) \<Rightarrow> n | _ \<Rightarrow> 0)"
| "field_or_0 name v = 0"

text \<open>The sum of a field over the commits that have a non-null \<^verbatim>\<open>stats\<close>.\<close>

definition sum_stats :: "string \<Rightarrow> json list \<Rightarrow> int" where
  "sum_stats name commits = sum_list (map (field_or_0 name) (List.map_filter stats_of commits))"

text \<open>
  What lines 90 to 100 compute from the value of one key taken alone, starting from zero
  sums.
\<close>

definition loc_of_commits :: "json \<Rightarrow> error + loc_info" where
  "loc_of_commits commits =
     (case py_iter commits of
        Inl e \<Rightarrow> Inl e
      | Inr cs \<Rightarrow>
          (case commits_loop cs 0 0 of
             Inl e \<Rightarrow> Inl e
           | Inr (total_additions, total_deletions) \<Rightarrow>
               Inr \<lparr>loc_info.Total_LOC_Change = total_additions + total_deletions,
                    loc_info.Additions = total_additions,
                    loc_info.Deletions = total_deletions\<rparr>))"

text \<open>
  The entries of a comments document in input order: the keys in document order and,
  under each key, the entries in array order, each with the result of processing it (the
  dict to append, or the exception). A value that cannot be iterated stands for its
  exception.
\<close>

definition entries_in_order ::
  "(json \<Rightarrow> string) \<Rightarrow> string \<Rightarrow> (string \<times> json) list \<Rightarrow> (error + extracted_entry) list" where
  "entries_in_order fmt comment_category kvs =
     concat (map (\<lambda>kv. case py_iter (snd kv) of
                          Inl e \<Rightarrow> [Inl e]
                        | Inr entries \<Rightarrow>
                            map (extract_entry fmt comment_category (pr_id_of (fst kv))) entries)
                 kvs)"

text \<open>The dicts of the entries that come before the first exception, in input order.\<close>

definition extracted_in_order ::
  "(json \<Rightarrow> string) \<Rightarrow> string \<Rightarrow> json_file \<Rightarrow> extracted_entry list" where
  "extracted_in_order fmt comment_category file_path =
     (case file_path of
        Readable kvs fault \<Rightarrow>
          map projr (takeWhile (\<lambda>x. \<not> isl x) (entries_in_order fmt comment_category kvs))
      | _ \<Rightarrow> [])"

text \<open>The part of a merged record that comes from the extracted entry.\<close>

definition entry_of :: "interaction \<Rightarrow> extracted_entry" where
  "entry_of r =
     \<lparr>extracted_entry.PR_ID = interaction.PR_ID r,
      extracted_entry.Comment_Body = interaction.Comment_Body r,
      extracted_entry.User_Login = interaction.User_Login r,
      extracted_entry.User_Type = interaction.User_Type r,
      extracted_entry.Comment_Category = interaction.Comment_Category r\<rparr>"

section \<open>Example inputs\<close>

text \<open>
  An agent directory with one pull request that has commits, comments and reviews, and one
  (\<^verbatim>\<open>7.json\<close>) that has a comment only. Its review-comments file is missing.
\<close>

definition alpha :: agent_dir where
  "alpha =
     \<lparr>gpt_conventional_commits = CsvRows [(''42'', ''bugfix'')],
      pr_commit_details =
        Readable
          [(''42.json'',
            JArr [JObj [(''stats'', JObj [(''additions'', JInt 10), (''deletions'', JInt 2)])],
                  JObj [(''sha'', JStr ''abc'')]])]
          None,
      pr_comments =
        Readable
          [(''42.json'',
            JArr [JObj [(''body'', JStr ''hi''),
                        (''user'', JObj [(''login'', JStr ''bob''), (''type'', JStr ''User'')])]]),
           (''7.json'', JArr [JObj [(''body'', JStr ''ping'')]])]
          None,
      pr_review_comments = Missing,
      pr_reviews =
        Readable
          [(''42.json'',
            JArr [JObj [(''state'', JStr ''APPROVED'')],
                  JObj [(''body'', JStr ''nice''), (''state'', JStr ''APPROVED'')]])]
          None\<rparr>"

text \<open>The four rows that \<^verbatim>\<open>process_agent_data\<close> gives for it.\<close>

definition alpha_rows :: "interaction list" where
  "alpha_rows =
     [\<lparr>Agent = ''alpha'', PR_ID = ''42'', Task_Type = ''bugfix'', Total_LOC_Change = 12,
       Additions = 10, Deletions = 2, Comment_Category = ''PR_Comment'',
       Comment_Body = JStr ''hi'', User_Login = JStr ''bob'', User_Type = JStr ''User''\<rparr>,
      \<lparr>Agent = ''alpha'', PR_ID = ''7'', Task_Type = ''N/A'', Total_LOC_Change = 0,
       Additions = 0, Deletions = 0, Comment_Category = ''PR_Comment'',
       Comment_Body = JStr ''ping'', User_Login = JStr ''N/A'', User_Type = JStr ''N/A''\<rparr>,
      \<lparr>Agent = ''alpha'', PR_ID = ''42'', Task_Type = ''bugfix'', Total_LOC_Change = 12,
       Additions = 10, Deletions = 2, Comment_Category = ''Review_Summary'',
       Comment_Body = JStr ''Review State: APPROVED'', User_Login = JStr ''N/A'',
       User_Type = JStr ''N/A''\<rparr>,
      \<lparr>Agent = ''alpha'', PR_ID = ''42'', Task_Type = ''bugfix'', Total_LOC_Change = 12,
       Additions = 10, Deletions = 2, Comment_Category = ''Review_Summary'',
       Comment_Body = JStr ''nice'', User_Login = JStr ''N/A'', User_Type = JStr ''N/A''\<rparr>]"

text \<open>
  A second agent directory, with one comment and nothing else, and a commit-details
  document that is cut off after its first pair.
\<close>

definition beta :: agent_dir where
  "beta =
     \<lparr>gpt_conventional_commits = CsvMissing,
      pr_commit_details = Missing,
      pr_comments = Readable [(''1.json'', JArr [JObj [(''body'', JStr ''ok'')]])] None,
      pr_review_comments = Missing,
      pr_reviews = Missing\<rparr>"

definition truncated_commit_details :: json_file where
  "truncated_commit_details =
     Readable
       [(''1.json'', JArr [JObj [(''stats'', JObj [(''additions'', JInt 3), (''deletions'', JInt 1)])]])]
       (Some IncompleteJSONError)"

text \<open>
  The values of two keys of a commit-details document, \<^verbatim>\<open>42.json\<close> and \<^verbatim>\<open>42\<close>, that give
  the same PR_ID.
\<close>

definition first_commits :: json where
  "first_commits =
     JArr [JObj [(''stats'', JObj [(''additions'', JInt 10), (''deletions'', JInt 2)])]]"

definition second_commits :: json where
  "second_commits =
     JArr [JObj [(''stats'', JObj [(''additions'', JInt 1), (''deletions'', JInt 1)])]]"

text \<open>
  Commits of one pull request: one with both counts, one without \<^verbatim>\<open>stats\<close>, one whose
  \<^verbatim>\<open>stats\<close> is null, one whose \<^verbatim>\<open>stats\<close> has no \<^verbatim>\<open>deletions\<close>.
\<close>

definition mixed_commits :: "json list" where
  "mixed_commits =
     [JObj [(''stats'', JObj [(''additions'', JInt 10), (''deletions'', JInt 2)])],
      JObj [(''sha'', JStr ''abc'')],
      JObj [(''stats'', JNull)],
      JObj [(''stats'', JObj [(''additions'', JInt 5)])]]"

text \<open>An agent directory with none of the five files.\<close>

definition all_missing :: agent_dir where
  "all_missing =
     \<lparr>gpt_conventional_commits = CsvMissing, pr_commit_details = Missing,
      pr_comments = Missing, pr_review_comments = Missing, pr_reviews = Missing\<rparr>"

text \<open>
  The comments document of \<open>beta\<close>, cut off after its first pair, and the row that
  \<^verbatim>\<open>process_agent_data\<close> gives for \<open>beta\<close>.
\<close>

definition truncated_comments :: json_file where
  "truncated_comments =
     Readable [(''1.json'', JArr [JObj [(''body'', JStr ''ok'')]])] (Some IncompleteJSONError)"

definition beta_rows :: "interaction list" where
  "beta_rows =
     [\<lparr>Agent = ''beta'', PR_ID = ''1'', Task_Type = ''N/A'', Total_LOC_Change = 0,
       Additions = 0, Deletions = 0, Comment_Category = ''PR_Comment'',
       Comment_Body = JStr ''ok'', User_Login = JStr ''N/A'', User_Type = JStr ''N/A''\<rparr>]"

text \<open>
  An agent directory that has a reviews file and nothing else that can be loaded, and the
  row that \<^verbatim>\<open>process_agent_data\<close> gives for it.
\<close>

definition only_reviews :: agent_dir where
  "only_reviews =
     \<lparr>gpt_conventional_commits = CsvError,
      pr_commit_details = Missing,
      pr_comments = Missing,
      pr_review_comments = Missing,
      pr_reviews =
        Readable
          [(''9.json'',
            JArr [JObj [(''state'', JStr ''CHANGES_REQUESTED''),
                        (''user'', JObj [(''login'', JStr ''eve''), (''type'', JStr ''User'')])]])]
          None\<rparr>"

definition only_reviews_rows :: "interaction list" where
  "only_reviews_rows =
     [\<lparr>Agent = ''delta'', PR_ID = ''9'', Task_Type = ''N/A'', Total_LOC_Change = 0,
       Additions = 0, Deletions = 0, Comment_Category = ''Review_Summary'',
       Comment_Body = JStr ''Review State: CHANGES_REQUESTED'', User_Login = JStr ''eve'',
       User_Type = JStr ''User''\<rparr>]"

section \<open>Evaluation of the examples\<close>

lemma alpha_processed: "process_agent_data fmt ''alpha'' alpha = Inr alpha_rows"
  by (simp add: alpha_def alpha_rows_def process_agent_data_def calculate_loc_def
      load_task_types_def extract_comments_with_details_def pr_id_of_def extract_entry_def
      entry_body_def merge_entry_def py_str_def)

section \<open>The pull-request identifier\<close>

lemma py_replace_absent:
  "old \<noteq> [] \<Longrightarrow> \<not> sublist old s \<Longrightarrow> py_replace old new s = s"
proof (induction s)
  case Nil
  then show ?case by simp
next
  case (Cons c cs)
  from Cons.prems have np: "\<not> prefix old (c # cs)" and ns: "\<not> sublist old cs"
    by (auto simp: sublist_Cons_right)
  with Cons show ?case by simp
qed

text \<open>
  A pattern whose first character does not occur again in it cannot begin inside a piece
  that does not contain it and end inside the occurrence that follows the piece.
\<close>

lemma not_straddling:
  assumes d: "d \<notin> set ds" and p: "p \<noteq> []" and ns: "\<not> sublist (d # ds) p"
  shows "\<not> prefix (d # ds) (p @ (d # ds) @ rest)"
proof
  assume "prefix (d # ds) (p @ (d # ds) @ rest)"
  then consider "prefix (d # ds) p"
    | us where "d # ds = p @ us" "prefix us ((d # ds) @ rest)"
    unfolding prefix_append by blast
  then show False
  proof cases
    case 1
    then have "sublist (d # ds) p" by (rule prefix_imp_sublist)
    with ns show False by simp
  next
    case 2
    from 2(1) p obtain p' where p': "p = d # p'" "ds = p' @ us"
      by (cases p) auto
    show False
    proof (cases us)
      case Nil
      with 2(1) have "p = d # ds" by simp
      with ns show False by simp
    next
      case (Cons u us')
      with 2(2) have "u = d" by simp
      with Cons p'(2) d show False by simp
    qed
  qed
qed

lemma py_replace_piece:
  assumes d: "d \<notin> set ds"
  shows "\<not> sublist (d # ds) p \<Longrightarrow>
    py_replace (d # ds) new (p @ (d # ds) @ rest) = p @ new @ py_replace (d # ds) new rest"
proof (induction p)
  case Nil
  show ?case by simp
next
  case (Cons c cs)
  from Cons.prems have ns: "\<not> sublist (d # ds) cs"
    by (auto simp: sublist_Cons_right)
  have "\<not> prefix (d # ds) ((c # cs) @ (d # ds) @ rest)"
    using d _ Cons.prems by (rule not_straddling) simp
  then have np: "\<not> prefix (d # ds) (c # (cs @ (d # ds) @ rest))"
    by (simp only: append_Cons simp_thms)
  have "py_replace (d # ds) new (c # (cs @ (d # ds) @ rest))
      = c # py_replace (d # ds) new (cs @ (d # ds) @ rest)"
    by (simp only: py_replace.simps(2) np list.distinct if_False simp_thms)
  with Cons.IH [OF ns] show ?case by (simp only: append_Cons simp_thms)
qed

lemma py_replace_join:
  assumes d: "d \<notin> set ds"
  shows "\<forall>p\<in>set ps. \<not> sublist (d # ds) p \<Longrightarrow>
   py_replace (d # ds) [] (py_join (d # ds) ps) = concat ps"
proof (induction ps rule: induct_list012)
  case 1 show ?case by simp
next
  case (2 p) then show ?case by (simp add: py_replace_absent)
next
  case (3 p q ps)
  then have "py_replace (d # ds) [] (py_join (d # ds) (q # ps)) = concat (q # ps)" by simp
  moreover have "py_replace (d # ds) [] (p @ (d # ds) @ py_join (d # ds) (q # ps))
     = p @ [] @ py_replace (d # ds) [] (py_join (d # ds) (q # ps))"
    using 3 by (intro py_replace_piece [OF d]) simp
  ultimately show ?case by simp
qed

lemma pr_id_of_join:
  "\<forall>p\<in>set ps. \<not> sublist ''.json'' p \<Longrightarrow> pr_id_of (py_join ''.json'' ps) = concat ps"
  unfolding pr_id_of_def by (rule py_replace_join) simp

text \<open>
  C2, as the script has it. \<^verbatim>\<open>replace\<close> removes every occurrence of \<^verbatim>\<open>.json\<close>, wherever it
  stands, not the trailing one only: a filename made of pieces that do not contain
  \<^verbatim>\<open>.json\<close>, joined by \<^verbatim>\<open>.json\<close>, gives the pieces put together. So a filename whose
  only occurrence of \<^verbatim>\<open>.json\<close> is its suffix loses exactly that suffix, and a filename
  that does not contain \<^verbatim>\<open>.json\<close> is its own PR_ID; no filename raises.
\<close>

theorem C2_pr_id_removes_every_occurrence:
  "((\<forall>p\<in>set pieces. \<not> sublist ''.json'' p) \<longrightarrow>
      pr_id_of (py_join ''.json'' pieces) = concat pieces)
   \<and> (\<not> sublist ''.json'' stem \<longrightarrow> pr_id_of (stem @ ''.json'') = stem)
   \<and> (\<not> sublist ''.json'' pr_filename \<longrightarrow> pr_id_of pr_filename = pr_filename)"
proof (intro conjI impI)
  assume "\<forall>p\<in>set pieces. \<not> sublist ''.json'' p"
  then show "pr_id_of (py_join ''.json'' pieces) = concat pieces"
    by (rule pr_id_of_join)
next
  assume "\<not> sublist ''.json'' stem"
  then have "pr_id_of (py_join ''.json'' [stem, []]) = concat [stem, []]"
    by (intro pr_id_of_join) simp
  then show "pr_id_of (stem @ ''.json'') = stem" by simp
next
  assume "\<not> sublist ''.json'' pr_filename"
  then have "pr_id_of (py_join ''.json'' [pr_filename]) = concat [pr_filename]"
    by (intro pr_id_of_join) simp
  then show "pr_id_of pr_filename = pr_filename" by simp
qed

theorem C2_pr_id_removes_every_occurrence_witness:
  "\<not> sublist ''.json'' ''a'' \<and> \<not> sublist ''.json'' ''b'' \<and> \<not> sublist ''.json'' []
   \<and> pr_id_of ''a.jsonb.json'' = ''ab''
   \<and> \<not> sublist ''.json'' ''42'' \<and> pr_id_of ''42.json'' = ''42''
   \<and> pr_id_of ''42'' = ''42''"
  using C2_pr_id_removes_every_occurrence [of "[''a'', ''b'', []]" "''42''" "''42''"]
  by (simp add: sublist_Cons_right)

text \<open>
  C2 as the claim states it fails: \<^verbatim>\<open>42.jsonl\<close> does not end in \<^verbatim>\<open>.json\<close> and is changed,
  and \<^verbatim>\<open>a.json.json\<close> loses more than its trailing suffix.
\<close>

theorem C2_counterexample:
  "\<not> suffix ''.json'' ''42.jsonl'' \<and> pr_id_of ''42.jsonl'' = ''42l''
   \<and> ''42l'' \<noteq> ''42.jsonl''
   \<and> pr_id_of ''a.json.json'' = ''a'' \<and> ''a'' \<noteq> ''a.json''"
  by (simp add: pr_id_of_def suffix_to_prefix)

section \<open>The lines of code of a pull request\<close>

lemma loc_loop_step:
  "loc_loop ((fn, commits) # rest) fault m =
     (case loc_of_commits commits of
        Inl e \<Rightarrow> Inl e
      | Inr v \<Rightarrow> loc_loop rest fault (m(pr_id_of fn \<mapsto> v)))"
  by (simp add: loc_of_commits_def split: sum.splits prod.splits)

lemma loc_of_commits_total:
  "loc_of_commits commits = Inr v \<Longrightarrow>
     loc_info.Total_LOC_Change v = loc_info.Additions v + loc_info.Deletions v"
  by (auto simp: loc_of_commits_def split: sum.splits prod.splits)

lemma loc_loop_invariant:
  "loc_loop kvs fault m = Inr m' \<Longrightarrow>
   (\<And>p v. m p = Some v \<Longrightarrow>
      loc_info.Total_LOC_Change v = loc_info.Additions v + loc_info.Deletions v) \<Longrightarrow>
   m' p = Some v \<Longrightarrow>
   loc_info.Total_LOC_Change v = loc_info.Additions v + loc_info.Deletions v"
proof (induction kvs arbitrary: m)
  case Nil
  then show ?case by (auto split: option.splits)
next
  case (Cons kv kvs)
  obtain fn commits where kv: "kv = (fn, commits)" by (cases kv)
  from Cons.prems(1) obtain w where w: "loc_of_commits commits = Inr w"
    and rest: "loc_loop kvs fault (m(pr_id_of fn \<mapsto> w)) = Inr m'"
    unfolding kv loc_loop_step by (auto split: sum.splits)
  show ?case
  proof (rule Cons.IH [OF rest _ Cons.prems(3)])
    fix q u assume "(m(pr_id_of fn \<mapsto> w)) q = Some u"
    then show "loc_info.Total_LOC_Change u = loc_info.Additions u + loc_info.Deletions u"
      using loc_of_commits_total [OF w] Cons.prems(2) by (auto split: if_splits)
  qed
qed

lemma calculate_loc_invariant:
  "calculate_loc f = Inr m \<Longrightarrow> m p = Some v \<Longrightarrow>
     loc_info.Total_LOC_Change v = loc_info.Additions v + loc_info.Deletions v"
  by (cases f) (auto simp: calculate_loc_def dest: loc_loop_invariant)

section \<open>The merge\<close>

lemma process_agent_data_Inr:
  assumes "process_agent_data fmt agent_name agent_path = Inr merged_output"
  obtains pr_loc_data c1 c2 c3 where
    "calculate_loc (pr_commit_details agent_path) = Inr pr_loc_data"
    "extract_comments_with_details fmt (pr_comments agent_path) ''PR_Comment'' = Inr c1"
    "extract_comments_with_details fmt (pr_review_comments agent_path) ''Review_Comment''
       = Inr c2"
    "extract_comments_with_details fmt (pr_reviews agent_path) ''Review_Summary'' = Inr c3"
    "merged_output =
       map (merge_entry agent_name (load_task_types (gpt_conventional_commits agent_path))
              pr_loc_data)
         (c1 @ c2 @ c3)"
  using assms unfolding process_agent_data_def Let_def
  by (auto split: sum.splits)

text \<open>
  C3. Every record that the merge step emits has
  \<open>Total_LOC_Change = Additions + Deletions\<close>, whether its PR_ID is in the LOC mapping
  (the stored triple) or not (the zero triple).
\<close>

theorem C3_total_is_sum:
  assumes "process_agent_data fmt agent_name agent_path = Inr merged_output"
    and "r \<in> set merged_output"
  shows "interaction.Total_LOC_Change r = interaction.Additions r + interaction.Deletions r"
proof -
  from assms(1) obtain pr_loc_data c1 c2 c3 where
    loc: "calculate_loc (pr_commit_details agent_path) = Inr pr_loc_data" and
    out: "merged_output =
       map (merge_entry agent_name (load_task_types (gpt_conventional_commits agent_path))
              pr_loc_data)
         (c1 @ c2 @ c3)"
    by (rule process_agent_data_Inr)
  from assms(2) out obtain entry where
    r: "r = merge_entry agent_name (load_task_types (gpt_conventional_commits agent_path))
              pr_loc_data entry"
    by auto
  show ?thesis
  proof (cases "pr_loc_data (extracted_entry.PR_ID entry)")
    case None
    then show ?thesis by (simp add: r merge_entry_def Let_def)
  next
    case (Some v)
    with calculate_loc_invariant [OF loc Some] show ?thesis
      by (simp add: r merge_entry_def Let_def)
  qed
qed

theorem C3_total_is_sum_witness:
  "process_agent_data (\<lambda>v. []) ''alpha'' alpha = Inr alpha_rows
   \<and> alpha_rows ! 0 \<in> set alpha_rows
   \<and> interaction.Total_LOC_Change (alpha_rows ! 0)
       = interaction.Additions (alpha_rows ! 0) + interaction.Deletions (alpha_rows ! 0)
   \<and> interaction.Total_LOC_Change (alpha_rows ! 0) = 12
   \<and> alpha_rows ! 1 \<in> set alpha_rows
   \<and> interaction.Total_LOC_Change (alpha_rows ! 1)
       = interaction.Additions (alpha_rows ! 1) + interaction.Deletions (alpha_rows ! 1)"
proof -
  have p: "process_agent_data (\<lambda>v. []) ''alpha'' alpha = Inr alpha_rows"
    by (rule alpha_processed)
  have m0: "alpha_rows ! 0 \<in> set alpha_rows" and m1: "alpha_rows ! 1 \<in> set alpha_rows"
    by (simp_all add: alpha_rows_def)
  have v: "interaction.Total_LOC_Change (alpha_rows ! 0) = 12" by (simp add: alpha_rows_def)
  from p m0 m1 v C3_total_is_sum [OF p m0] C3_total_is_sum [OF p m1] show ?thesis by blast
qed

lemma alpha_loc:
  "calculate_loc (pr_commit_details alpha)
     = Inr [''42'' \<mapsto> \<lparr>loc_info.Total_LOC_Change = 12, loc_info.Additions = 10,
                        loc_info.Deletions = 2\<rparr>]"
  by (simp add: alpha_def calculate_loc_def pr_id_of_def)

text \<open>
  C7. A merged record whose PR_ID has no entry in the LOC mapping has
  \<open>Total_LOC_Change\<close>, \<open>Additions\<close> and \<open>Deletions\<close> all 0, and one whose PR_ID has no
  entry in the task-type map has the \<open>Task_Type\<close> \<^verbatim>\<open>N/A\<close>.
\<close>

theorem C7_defaults_for_absent_pr_id:
  assumes "process_agent_data fmt agent_name agent_path = Inr merged_output"
    and "calculate_loc (pr_commit_details agent_path) = Inr pr_loc_data"
    and "r \<in> set merged_output"
  shows "(pr_loc_data (interaction.PR_ID r) = None \<longrightarrow>
            interaction.Total_LOC_Change r = 0 \<and> interaction.Additions r = 0
            \<and> interaction.Deletions r = 0)
       \<and> (load_task_types (gpt_conventional_commits agent_path) (interaction.PR_ID r) = None
            \<longrightarrow> Task_Type r = ''N/A'')"
proof -
  from assms(1) obtain m c1 c2 c3 where
    loc: "calculate_loc (pr_commit_details agent_path) = Inr m" and
    out: "merged_output =
       map (merge_entry agent_name (load_task_types (gpt_conventional_commits agent_path)) m)
         (c1 @ c2 @ c3)"
    by (rule process_agent_data_Inr)
  from loc assms(2) have m: "m = pr_loc_data" by simp
  from assms(3) out obtain entry where
    "r = merge_entry agent_name (load_task_types (gpt_conventional_commits agent_path))
              pr_loc_data entry"
    unfolding m by auto
  then show ?thesis by (simp add: merge_entry_def Let_def)
qed

theorem C7_defaults_for_absent_pr_id_witness:
  "process_agent_data (\<lambda>v. []) ''alpha'' alpha = Inr alpha_rows
   \<and> calculate_loc (pr_commit_details alpha)
       = Inr [''42'' \<mapsto> \<lparr>loc_info.Total_LOC_Change = 12, loc_info.Additions = 10,
                          loc_info.Deletions = 2\<rparr>]
   \<and> alpha_rows ! 1 \<in> set alpha_rows
   \<and> interaction.PR_ID (alpha_rows ! 1) = ''7''
   \<and> load_task_types (gpt_conventional_commits alpha) ''7'' = None
   \<and> interaction.Total_LOC_Change (alpha_rows ! 1) = 0
   \<and> interaction.Additions (alpha_rows ! 1) = 0
   \<and> interaction.Deletions (alpha_rows ! 1) = 0
   \<and> Task_Type (alpha_rows ! 1) = ''N/A''"
proof -
  have p: "process_agent_data (\<lambda>v. []) ''alpha'' alpha = Inr alpha_rows"
    by (rule alpha_processed)
  have m1: "alpha_rows ! 1 \<in> set alpha_rows"
    and id: "interaction.PR_ID (alpha_rows ! 1) = ''7''"
    by (simp_all add: alpha_rows_def)
  have t: "load_task_types (gpt_conventional_commits alpha) ''7'' = None"
    by (simp add: alpha_def load_task_types_def)
  from C7_defaults_for_absent_pr_id [OF p alpha_loc m1] p alpha_loc m1 id t
  show ?thesis by simp
qed

section \<open>Keys that give the same PR_ID\<close>

lemma loc_loop_append:
  "loc_loop (kvs1 @ kvs2) fault m =
     (case loc_loop kvs1 None m of Inl e \<Rightarrow> Inl e | Inr m1 \<Rightarrow> loc_loop kvs2 fault m1)"
proof (induction kvs1 arbitrary: m)
  case Nil
  show ?case by simp
next
  case (Cons kv kvs1)
  obtain fn commits where kv: "kv = (fn, commits)" by (cases kv)
  show ?case
  proof (cases "loc_of_commits commits")
    case (Inl e)
    then show ?thesis unfolding kv append_Cons loc_loop_step by simp
  next
    case (Inr v)
    have "loc_loop ((fn, commits) # kvs1 @ kvs2) fault m
        = loc_loop (kvs1 @ kvs2) fault (m(pr_id_of fn \<mapsto> v))"
      by (simp only: loc_loop_step Inr sum.case)
    also have "\<dots> = (case loc_loop kvs1 None (m(pr_id_of fn \<mapsto> v)) of
                         Inl e \<Rightarrow> Inl e | Inr m1 \<Rightarrow> loc_loop kvs2 fault m1)"
      by (rule Cons.IH)
    also have "\<dots> = (case loc_loop ((fn, commits) # kvs1) None m of
                         Inl e \<Rightarrow> Inl e | Inr m1 \<Rightarrow> loc_loop kvs2 fault m1)"
      by (simp only: loc_loop_step Inr sum.case)
    finally show ?thesis unfolding kv append_Cons .
  qed
qed

lemma loc_loop_untouched:
  "loc_loop kvs fault m = Inr m' \<Longrightarrow> \<forall>kv\<in>set kvs. pr_id_of (fst kv) \<noteq> p \<Longrightarrow> m' p = m p"
proof (induction kvs arbitrary: m)
  case Nil
  then show ?case by (auto split: option.splits)
next
  case (Cons kv kvs)
  obtain fn commits where kv: "kv = (fn, commits)" by (cases kv)
  from Cons.prems(1) obtain w where
    rest: "loc_loop kvs fault (m(pr_id_of fn \<mapsto> w)) = Inr m'"
    unfolding kv loc_loop_step by (auto split: sum.splits)
  from Cons.prems(2) have "\<forall>kv\<in>set kvs. pr_id_of (fst kv) \<noteq> p" and "pr_id_of fn \<noteq> p"
    by (simp_all add: kv)
  with Cons.IH [OF rest] show ?case by simp
qed

text \<open>
  C10. When the commit-details document has been read without an exception, the entry of
  the LOC mapping for a PR_ID is the one computed from the value of the last key that gives
  this PR_ID, taken alone and starting from zero sums: whatever keys come before it, also
  keys that give the same PR_ID, add nothing to it.
\<close>

theorem C10_later_key_overwrites:
  assumes "calculate_loc (Readable (before @ (pr_filename, commits) # after) fault)
             = Inr pr_loc_data"
    and "\<forall>kv\<in>set after. pr_id_of (fst kv) \<noteq> pr_id_of pr_filename"
  shows "\<exists>v. pr_loc_data (pr_id_of pr_filename) = Some v \<and> loc_of_commits commits = Inr v"
proof -
  from assms(1) have
    "loc_loop (before @ (pr_filename, commits) # after) fault Map.empty = Inr pr_loc_data"
    by (simp add: calculate_loc_def)
  then obtain m1 where
    "loc_loop ((pr_filename, commits) # after) fault m1 = Inr pr_loc_data"
    unfolding loc_loop_append by (auto split: sum.splits)
  then obtain v where v: "loc_of_commits commits = Inr v"
    and rest: "loc_loop after fault (m1(pr_id_of pr_filename \<mapsto> v)) = Inr pr_loc_data"
    unfolding loc_loop_step by (auto split: sum.splits)
  from loc_loop_untouched [OF rest assms(2)] v show ?thesis by simp
qed

theorem C10_later_key_overwrites_witness:
  "calculate_loc (Readable ([(''42.json'', first_commits)] @ (''42'', second_commits) # []) None)
     = Inr [''42'' \<mapsto> \<lparr>loc_info.Total_LOC_Change = 2, loc_info.Additions = 1,
                        loc_info.Deletions = 1\<rparr>]
   \<and> pr_id_of ''42.json'' = pr_id_of ''42''
   \<and> loc_of_commits first_commits
       = Inr \<lparr>loc_info.Total_LOC_Change = 12, loc_info.Additions = 10, loc_info.Deletions = 2\<rparr>
   \<and> loc_of_commits second_commits
       = Inr \<lparr>loc_info.Total_LOC_Change = 2, loc_info.Additions = 1, loc_info.Deletions = 1\<rparr>"
proof -
  have c: "calculate_loc
             (Readable ([(''42.json'', first_commits)] @ (''42'', second_commits) # []) None)
     = Inr [''42'' \<mapsto> \<lparr>loc_info.Total_LOC_Change = 2, loc_info.Additions = 1,
                        loc_info.Deletions = 1\<rparr>]"
    by (simp add: calculate_loc_def pr_id_of_def first_commits_def second_commits_def)
  have i: "pr_id_of ''42.json'' = pr_id_of ''42''" and i2: "pr_id_of ''42'' = ''42''"
    by (simp_all add: pr_id_of_def)
  have f: "loc_of_commits first_commits
       = Inr \<lparr>loc_info.Total_LOC_Change = 12, loc_info.Additions = 10, loc_info.Deletions = 2\<rparr>"
    by (simp add: loc_of_commits_def first_commits_def)
  have e: "\<forall>kv\<in>set []. pr_id_of (fst kv) \<noteq> pr_id_of ''42''" by simp
  from C10_later_key_overwrites [OF c e] c i i2 f show ?thesis by simp
qed

section \<open>The sums over the commits\<close>

lemma commits_loop_commit_objects:
  "\<forall>c\<in>set cs. commit_object c \<Longrightarrow>
   commits_loop cs a d = Inr (a + sum_stats ''additions'' cs, d + sum_stats ''deletions'' cs)"
proof (induction cs arbitrary: a d)
  case Nil
  show ?case by (simp add: sum_stats_def List.map_filter_simps)
next
  case (Cons c cs)
  from Cons.prems have c: "commit_object c" and cs: "\<forall>c\<in>set cs. commit_object c" by simp_all
  from c obtain kvs where kvs: "c = JObj kvs" by (cases c) simp_all
  have tail: "\<And>a d. commits_loop cs a d
      = Inr (a + sum_stats ''additions'' cs, d + sum_stats ''deletions'' cs)"
    by (rule Cons.IH [OF cs])
  show ?case
  proof (cases "map_of kvs ''stats''")
    case None
    then have "''stats'' \<notin> fst ` set kvs" by (simp add: map_of_eq_None_iff)
    with None show ?thesis
      by (simp add: kvs tail sum_stats_def List.map_filter_simps)
  next
    case (Some st)
    then have "''stats'' \<in> fst ` set kvs" by (metis domI dom_map_of_conv_image_fst)
    with Some c show ?thesis
      by (cases st) (auto simp: kvs tail sum_stats_def List.map_filter_simps
          split: option.splits json.splits)
  qed
qed

lemma commits_loop_no_stats:
  assumes "commit_object c" and "stats_of c = None"
  shows "commits_loop (c # cs) a d = commits_loop cs a d"
proof -
  from assms(1) obtain kvs where kvs: "c = JObj kvs" by (cases c) simp_all
  show ?thesis
  proof (cases "map_of kvs ''stats''")
    case None
    then have "''stats'' \<notin> fst ` set kvs" by (simp add: map_of_eq_None_iff)
    then show ?thesis by (simp add: kvs)
  next
    case (Some st)
    then have "''stats'' \<in> fst ` set kvs" by (metis domI dom_map_of_conv_image_fst)
    with Some assms(2) show ?thesis
      by (cases st) (simp_all add: kvs)
  qed
qed

text \<open>
  C4. For a pair whose value is an array of commit objects, the pass of the loop stores
  under the PR_ID the sum of \<^verbatim>\<open>stats.additions\<close> (0 when absent) over the commits that have
  a non-null \<^verbatim>\<open>stats\<close>, the like sum of \<^verbatim>\<open>stats.deletions\<close>, and their total; and a
  commit with no \<^verbatim>\<open>stats\<close>, or a null one, leaves both running sums as they are.
\<close>

theorem C4_sums_over_commits_with_stats:
  assumes "\<forall>c\<in>set cs. commit_object c"
  shows "loc_loop ((pr_filename, JArr cs) # rest) fault pr_loc_data =
           loc_loop rest fault
             (pr_loc_data(pr_id_of pr_filename \<mapsto>
                \<lparr>loc_info.Total_LOC_Change =
                   sum_stats ''additions'' cs + sum_stats ''deletions'' cs,
                 loc_info.Additions = sum_stats ''additions'' cs,
                 loc_info.Deletions = sum_stats ''deletions'' cs\<rparr>))
       \<and> (\<forall>c\<in>set cs. stats_of c = None \<longrightarrow>
            (\<forall>cs' a d. commits_loop (c # cs') a d = commits_loop cs' a d))"
proof
  from commits_loop_commit_objects [OF assms, of 0 0]
  show "loc_loop ((pr_filename, JArr cs) # rest) fault pr_loc_data =
           loc_loop rest fault
             (pr_loc_data(pr_id_of pr_filename \<mapsto>
                \<lparr>loc_info.Total_LOC_Change =
                   sum_stats ''additions'' cs + sum_stats ''deletions'' cs,
                 loc_info.Additions = sum_stats ''additions'' cs,
                 loc_info.Deletions = sum_stats ''deletions'' cs\<rparr>))"
    by simp
  from assms show "\<forall>c\<in>set cs. stats_of c = None \<longrightarrow>
            (\<forall>cs' a d. commits_loop (c # cs') a d = commits_loop cs' a d)"
    using commits_loop_no_stats by blast
qed

theorem C4_sums_over_commits_with_stats_witness:
  "commit_object (mixed_commits ! 0) \<and> commit_object (mixed_commits ! 1)
   \<and> commit_object (mixed_commits ! 2) \<and> commit_object (mixed_commits ! 3)
   \<and> calculate_loc (Readable [(''42.json'', JArr mixed_commits)] None)
       = Inr [''42'' \<mapsto> \<lparr>loc_info.Total_LOC_Change = 17, loc_info.Additions = 15,
                          loc_info.Deletions = 2\<rparr>]
   \<and> stats_of (mixed_commits ! 1) = None
   \<and> commits_loop [mixed_commits ! 1] 15 2 = Inr (15, 2)"
proof -
  have ok: "\<forall>c\<in>set mixed_commits. commit_object c"
    by (simp add: mixed_commits_def)
  have m: "mixed_commits ! 1 \<in> set mixed_commits" and s: "stats_of (mixed_commits ! 1) = None"
    by (simp_all add: mixed_commits_def)
  have sums: "sum_stats ''additions'' mixed_commits = 15"
    "sum_stats ''deletions'' mixed_commits = 2"
    by (simp_all add: mixed_commits_def sum_stats_def List.map_filter_simps)
  have id: "pr_id_of ''42.json'' = ''42''" by (simp add: pr_id_of_def)
  from C4_sums_over_commits_with_stats [OF ok, of "''42.json''" "[]" None Map.empty]
  have 1: "loc_loop [(''42.json'', JArr mixed_commits)] None Map.empty
       = Inr [''42'' \<mapsto> \<lparr>loc_info.Total_LOC_Change = 17, loc_info.Additions = 15,
                          loc_info.Deletions = 2\<rparr>]"
    and 2: "\<forall>c\<in>set mixed_commits. stats_of c = None \<longrightarrow>
            (\<forall>cs' a d. commits_loop (c # cs') a d = commits_loop cs' a d)"
    by (simp_all only: sums id loc_loop.simps option.case) simp_all
  from 2 m s have "commits_loop [mixed_commits ! 1] 15 2 = commits_loop [] 15 2" by blast
  with 1 ok s show ?thesis by (simp add: calculate_loc_def mixed_commits_def)
qed

section \<open>The body of a review summary\<close>

text \<open>
  C5. For an entry (an object whose \<^verbatim>\<open>user\<close> is absent, falsy or an object) processed
  under the category \<^verbatim>\<open>Review_Summary\<close>, a dict is emitted, and its \<open>Comment_Body\<close> is
  \<^verbatim>\<open>Review State: \<close> followed by the state when the body is empty and the state is not,
  and the body as it is in every other case: a non-empty body wins over the state.
  Empty is what \<^verbatim>\<open>not body\<close> tests: for a str, the empty str; an absent body is the
  empty str, and a null body counts as empty. A state that is a str is appended as it is.
\<close>

theorem C5_review_state_when_body_empty:
  assumes "body = (case map_of kvs ''body'' of None \<Rightarrow> JStr [] | Some b \<Rightarrow> b)"
    and "state = (case map_of kvs ''state'' of None \<Rightarrow> JNull | Some s \<Rightarrow> s)"
    and "user = (case map_of kvs ''user'' of None \<Rightarrow> JNull | Some u \<Rightarrow> u)"
    and "\<not> truthy user \<or> (\<exists>ukvs. user = JObj ukvs)"
  shows "\<exists>d. extract_entry fmt ''Review_Summary'' pr_id (JObj kvs) = Inr d
            \<and> extracted_entry.Comment_Body d =
                (if \<not> truthy body \<and> truthy state
                 then JStr (''Review State: '' @ py_str fmt state) else body)
            \<and> (\<forall>s. state = JStr s \<longrightarrow> py_str fmt state = s)"
proof -
  have b: "entry_body fmt ''Review_Summary'' (JObj kvs) =
     Inr (if \<not> truthy body \<and> truthy state
          then JStr (''Review State: '' @ py_str fmt state) else body)"
    unfolding entry_body_def assms(1,2)
    by (auto split: option.splits)
  from assms(4) show ?thesis
  proof
    assume "\<not> truthy user"
    then show ?thesis
      unfolding extract_entry_def b using assms(3)
      by (auto simp: py_str_def split: option.splits)
  next
    assume "\<exists>ukvs. user = JObj ukvs"
    then obtain ukvs where "user = JObj ukvs" ..
    then show ?thesis
      unfolding extract_entry_def b using assms(3)
      by (auto simp: py_str_def Let_def split: option.splits)
  qed
qed

theorem C5_review_state_when_body_empty_witness:
  "(\<exists>d. extract_entry (\<lambda>v. []) ''Review_Summary'' ''42''
           (JObj [(''state'', JStr ''APPROVED'')]) = Inr d
        \<and> extracted_entry.Comment_Body d = JStr ''Review State: APPROVED'')
   \<and> (\<exists>d. extract_entry (\<lambda>v. []) ''Review_Summary'' ''42''
           (JObj [(''body'', JStr ''nice''), (''state'', JStr ''APPROVED'')]) = Inr d
        \<and> extracted_entry.Comment_Body d = JStr ''nice'')
   \<and> (\<exists>d. extract_entry (\<lambda>v. []) ''Review_Summary'' ''42'' (JObj []) = Inr d
        \<and> extracted_entry.Comment_Body d = JStr [])"
  using
    C5_review_state_when_body_empty [OF refl refl refl,
      of "[(''state'', JStr ''APPROVED'')]" "\<lambda>v. []" "''42''"]
    C5_review_state_when_body_empty [OF refl refl refl,
      of "[(''body'', JStr ''nice''), (''state'', JStr ''APPROVED'')]" "\<lambda>v. []" "''42''"]
    C5_review_state_when_body_empty [OF refl refl refl, of "[]" "\<lambda>v. []" "''42''"]
  by (simp add: py_str_def)

section \<open>The order of the records\<close>

lemma extract_entry_category:
  "extract_entry fmt comment_category pr_id entry = Inr d \<Longrightarrow>
     extracted_entry.Comment_Category d = comment_category"
  by (auto simp: extract_entry_def Let_def split: sum.splits)

lemma entries_loop_fst:
  "fst (entries_loop fmt cat pr_id entries acc) =
     acc @ map projr (takeWhile (\<lambda>x. \<not> isl x) (map (extract_entry fmt cat pr_id) entries))"
  by (induction entries arbitrary: acc) (auto split: sum.splits)

lemma entries_loop_snd:
  "snd (entries_loop fmt cat pr_id entries acc) = None \<longleftrightarrow>
     (\<forall>x\<in>set (map (extract_entry fmt cat pr_id) entries). \<not> isl x)"
  by (induction entries arbitrary: acc) (auto split: sum.splits)

lemma kvitems_loop_fst:
  "fst (kvitems_loop fmt cat kvs fault acc) =
     acc @ map projr (takeWhile (\<lambda>x. \<not> isl x) (entries_in_order fmt cat kvs))"
proof (induction kvs arbitrary: acc)
  case Nil
  show ?case by (simp add: entries_in_order_def)
next
  case (Cons kv kvs)
  obtain fn v where kv: "kv = (fn, v)" by (cases kv)
  let ?rest = "entries_in_order fmt cat kvs"
  show ?case
  proof (cases "py_iter v")
    case (Inl e)
    then show ?thesis by (simp add: kv entries_in_order_def)
  next
    case (Inr entries)
    let ?xs = "map (extract_entry fmt cat (pr_id_of fn)) entries"
    have eio: "entries_in_order fmt cat (kv # kvs) = ?xs @ ?rest"
      by (simp add: kv Inr entries_in_order_def)
    obtain acc' r where el: "entries_loop fmt cat (pr_id_of fn) entries acc = (acc', r)"
      by (cases "entries_loop fmt cat (pr_id_of fn) entries acc")
    from el entries_loop_fst [of fmt cat "pr_id_of fn" entries acc]
    have acc': "acc' = acc @ map projr (takeWhile (\<lambda>x. \<not> isl x) ?xs)" by simp
    from el entries_loop_snd [of fmt cat "pr_id_of fn" entries acc]
    have r: "r = None \<longleftrightarrow> (\<forall>x\<in>set ?xs. \<not> isl x)" by simp
    show ?thesis
    proof (cases r)
      case None
      with r have all: "\<forall>x\<in>set ?xs. \<not> isl x" by simp
      then have tw: "takeWhile (\<lambda>x. \<not> isl x) (?xs @ ?rest)
          = ?xs @ takeWhile (\<lambda>x. \<not> isl x) ?rest"
        by (intro takeWhile_append2) blast
      from all have "takeWhile (\<lambda>x. \<not> isl x) ?xs = ?xs"
        by (intro takeWhile_eq_all_conv [THEN iffD2]) blast
      with acc' have acc2: "acc' = acc @ map projr ?xs" by simp
      have "fst (kvitems_loop fmt cat (kv # kvs) fault acc)
          = fst (kvitems_loop fmt cat kvs fault acc')"
        by (simp add: kv Inr el None)
      also have "\<dots> = acc' @ map projr (takeWhile (\<lambda>x. \<not> isl x) ?rest)"
        by (rule Cons.IH)
      finally show ?thesis unfolding eio tw acc2 by simp
    next
      case (Some e)
      with r obtain x where x: "x \<in> set ?xs" "\<not> \<not> isl x" by auto
      then have tw: "takeWhile (\<lambda>x. \<not> isl x) (?xs @ ?rest) = takeWhile (\<lambda>x. \<not> isl x) ?xs"
        by (rule takeWhile_append1)
      have "fst (kvitems_loop fmt cat (kv # kvs) fault acc) = acc'"
        by (simp add: kv Inr el Some)
      then show ?thesis unfolding eio tw acc' .
    qed
  qed
qed

lemma extract_comments_in_order:
  "extract_comments_with_details fmt file_path cat = Inr c \<Longrightarrow>
     c = extracted_in_order fmt cat file_path"
  by (cases file_path)
     (auto simp: extract_comments_with_details_def extracted_in_order_def kvitems_loop_fst)

lemma extracted_in_order_category:
  assumes "d \<in> set (extracted_in_order fmt cat file_path)"
  shows "extracted_entry.Comment_Category d = cat"
proof (cases file_path)
  case (Readable kvs fault)
  with assms obtain x where x: "x \<in> set (takeWhile (\<lambda>x. \<not> isl x) (entries_in_order fmt cat kvs))"
    and d: "d = projr x"
    by (auto simp: extracted_in_order_def)
  from x have nl: "\<not> isl x" and mem: "x \<in> set (entries_in_order fmt cat kvs)"
    by (auto dest: set_takeWhileD)
  from nl d have xd: "x = Inr d" by (cases x) simp_all
  from mem obtain kv where "kv \<in> set kvs"
    and "x \<in> set (case py_iter (snd kv) of Inl e \<Rightarrow> [Inl e]
                   | Inr entries \<Rightarrow> map (extract_entry fmt cat (pr_id_of (fst kv))) entries)"
    by (auto simp: entries_in_order_def)
  then obtain entry where "extract_entry fmt cat (pr_id_of (fst kv)) entry = Inr d"
    unfolding xd by (auto split: sum.splits)
  then show ?thesis by (rule extract_entry_category)
next
  case Missing
  with assms show ?thesis by (simp add: extracted_in_order_def)
next
  case Unreadable
  with assms show ?thesis by (simp add: extracted_in_order_def)
qed

lemma entry_of_merge_entry: "entry_of (merge_entry agent_name tm lm entry) = entry"
  by (cases entry) (simp add: entry_of_def merge_entry_def Let_def)

lemma category_merge_entry:
  "interaction.Comment_Category (merge_entry agent_name tm lm entry)
     = extracted_entry.Comment_Category entry"
  by (simp add: merge_entry_def Let_def)

text \<open>
  C6. The output of one agent is the records of category \<^verbatim>\<open>PR_Comment\<close>, then those of
  \<^verbatim>\<open>Review_Comment\<close>, then those of \<^verbatim>\<open>Review_Summary\<close>; and the records of each category
  carry, one for one and in the same order, the entries of the category's document in
  input order (keys in document order, entries in array order under each key), up to the
  first exception if there is one.
\<close>

theorem C6_categories_in_order:
  assumes "process_agent_data fmt agent_name agent_path = Inr merged_output"
  shows "\<exists>A B C. merged_output = A @ B @ C
           \<and> (\<forall>r\<in>set A. interaction.Comment_Category r = ''PR_Comment'')
           \<and> (\<forall>r\<in>set B. interaction.Comment_Category r = ''Review_Comment'')
           \<and> (\<forall>r\<in>set C. interaction.Comment_Category r = ''Review_Summary'')
           \<and> map entry_of A = extracted_in_order fmt ''PR_Comment'' (pr_comments agent_path)
           \<and> map entry_of B
               = extracted_in_order fmt ''Review_Comment'' (pr_review_comments agent_path)
           \<and> map entry_of C = extracted_in_order fmt ''Review_Summary'' (pr_reviews agent_path)"
proof -
  from assms obtain pr_loc_data c1 c2 c3 where
    c1: "extract_comments_with_details fmt (pr_comments agent_path) ''PR_Comment'' = Inr c1" and
    c2: "extract_comments_with_details fmt (pr_review_comments agent_path) ''Review_Comment''
           = Inr c2" and
    c3: "extract_comments_with_details fmt (pr_reviews agent_path) ''Review_Summary'' = Inr c3" and
    out: "merged_output =
       map (merge_entry agent_name (load_task_types (gpt_conventional_commits agent_path))
              pr_loc_data)
         (c1 @ c2 @ c3)"
    by (rule process_agent_data_Inr)
  let ?m = "merge_entry agent_name (load_task_types (gpt_conventional_commits agent_path))
              pr_loc_data"
  note o1 = extract_comments_in_order [OF c1]
    and o2 = extract_comments_in_order [OF c2]
    and o3 = extract_comments_in_order [OF c3]
  have parts: "merged_output = map ?m c1 @ map ?m c2 @ map ?m c3"
    by (simp add: out)
  have unmerge: "\<And>c. map entry_of (map ?m c) = c"
    by (simp add: entry_of_merge_entry comp_def)
  have cat: "\<And>c cat file_path r. c = extracted_in_order fmt cat file_path \<Longrightarrow>
      r \<in> set (map ?m c) \<Longrightarrow> interaction.Comment_Category r = cat"
    by (auto simp: category_merge_entry dest: extracted_in_order_category)
  have A: "\<forall>r\<in>set (map ?m c1). interaction.Comment_Category r = ''PR_Comment''"
    using cat [OF o1] by blast
  have B: "\<forall>r\<in>set (map ?m c2). interaction.Comment_Category r = ''Review_Comment''"
    using cat [OF o2] by blast
  have C: "\<forall>r\<in>set (map ?m c3). interaction.Comment_Category r = ''Review_Summary''"
    using cat [OF o3] by blast
  have eA: "map entry_of (map ?m c1)
      = extracted_in_order fmt ''PR_Comment'' (pr_comments agent_path)"
    unfolding unmerge by (rule o1)
  have eB: "map entry_of (map ?m c2)
      = extracted_in_order fmt ''Review_Comment'' (pr_review_comments agent_path)"
    unfolding unmerge by (rule o2)
  have eC: "map entry_of (map ?m c3)
      = extracted_in_order fmt ''Review_Summary'' (pr_reviews agent_path)"
    unfolding unmerge by (rule o3)
  from parts A B C eA eB eC show ?thesis by blast
qed

theorem C6_categories_in_order_witness:
  "process_agent_data (\<lambda>v. []) ''alpha'' alpha = Inr alpha_rows
   \<and> (\<exists>A B C. alpha_rows = A @ B @ C
           \<and> (\<forall>r\<in>set A. interaction.Comment_Category r = ''PR_Comment'')
           \<and> (\<forall>r\<in>set B. interaction.Comment_Category r = ''Review_Comment'')
           \<and> (\<forall>r\<in>set C. interaction.Comment_Category r = ''Review_Summary'')
           \<and> map entry_of A = extracted_in_order (\<lambda>v. []) ''PR_Comment'' (pr_comments alpha)
           \<and> map entry_of B
               = extracted_in_order (\<lambda>v. []) ''Review_Comment'' (pr_review_comments alpha)
           \<and> map entry_of C
               = extracted_in_order (\<lambda>v. []) ''Review_Summary'' (pr_reviews alpha))
   \<and> map interaction.Comment_Category alpha_rows
       = [''PR_Comment'', ''PR_Comment'', ''Review_Summary'', ''Review_Summary'']
   \<and> map interaction.Comment_Body alpha_rows
       = [JStr ''hi'', JStr ''ping'', JStr ''Review State: APPROVED'', JStr ''nice'']"
proof -
  have p: "process_agent_data (\<lambda>v. []) ''alpha'' alpha = Inr alpha_rows"
    by (rule alpha_processed)
  have c: "map interaction.Comment_Category alpha_rows
       = [''PR_Comment'', ''PR_Comment'', ''Review_Summary'', ''Review_Summary'']"
    and b: "map interaction.Comment_Body alpha_rows
       = [JStr ''hi'', JStr ''ping'', JStr ''Review State: APPROVED'', JStr ''nice'']"
    by (simp_all add: alpha_rows_def)
  from p C6_categories_in_order [OF p] c b show ?thesis by (intro conjI)
qed

section \<open>Missing files\<close>

lemma beta_processed: "process_agent_data fmt ''beta'' beta = Inr beta_rows"
  by (simp add: beta_def beta_rows_def process_agent_data_def calculate_loc_def
      load_task_types_def extract_comments_with_details_def pr_id_of_def extract_entry_def
      entry_body_def merge_entry_def py_str_def)

lemma all_missing_processed: "process_agent_data fmt agent_name all_missing = Inr []"
  by (simp add: all_missing_def extract_comments_with_details_def calculate_loc_def
      load_task_types_def process_agent_data_def)

lemma extract_comments_returns:
  "file_path \<noteq> Unreadable \<Longrightarrow>
     extract_comments_with_details fmt file_path comment_category
       = Inr (extracted_in_order fmt comment_category file_path)"
  by (cases file_path)
     (simp_all add: extract_comments_with_details_def extracted_in_order_def kvitems_loop_fst)

lemma process_agent_data_returns:
  assumes "calculate_loc (pr_commit_details agent_path) = Inr pr_loc_data"
    and "pr_comments agent_path \<noteq> Unreadable"
    and "pr_review_comments agent_path \<noteq> Unreadable"
    and "pr_reviews agent_path \<noteq> Unreadable"
  shows "process_agent_data fmt agent_name agent_path =
     Inr (map (merge_entry agent_name (load_task_types (gpt_conventional_commits agent_path))
                 pr_loc_data)
            (extracted_in_order fmt ''PR_Comment'' (pr_comments agent_path)
             @ extracted_in_order fmt ''Review_Comment'' (pr_review_comments agent_path)
             @ extracted_in_order fmt ''Review_Summary'' (pr_reviews agent_path)))"
  unfolding process_agent_data_def Let_def assms(1)
    extract_comments_returns [OF assms(2)] extract_comments_returns [OF assms(3)]
    extract_comments_returns [OF assms(4)]
  by (simp only: sum.case)

lemma missing_file_as_empty_document:
  "process_agent_data fmt agent_name (agent_path\<lparr>pr_comments := Missing\<rparr>)
       = process_agent_data fmt agent_name (agent_path\<lparr>pr_comments := Readable [] None\<rparr>)
   \<and> process_agent_data fmt agent_name (agent_path\<lparr>pr_review_comments := Missing\<rparr>)
       = process_agent_data fmt agent_name (agent_path\<lparr>pr_review_comments := Readable [] None\<rparr>)
   \<and> process_agent_data fmt agent_name (agent_path\<lparr>pr_reviews := Missing\<rparr>)
       = process_agent_data fmt agent_name (agent_path\<lparr>pr_reviews := Readable [] None\<rparr>)
   \<and> process_agent_data fmt agent_name (agent_path\<lparr>pr_commit_details := Missing\<rparr>)
       = process_agent_data fmt agent_name (agent_path\<lparr>pr_commit_details := Readable [] None\<rparr>)
   \<and> process_agent_data fmt agent_name (agent_path\<lparr>gpt_conventional_commits := CsvMissing\<rparr>)
       = process_agent_data fmt agent_name (agent_path\<lparr>gpt_conventional_commits := CsvRows []\<rparr>)
   \<and> process_agent_data fmt agent_name (agent_path\<lparr>gpt_conventional_commits := CsvError\<rparr>)
       = process_agent_data fmt agent_name (agent_path\<lparr>gpt_conventional_commits := CsvRows []\<rparr>)"
  by (simp add: extract_comments_with_details_def calculate_loc_def load_task_types_def
      process_agent_data_def cong: sum.case_cong)

text \<open>
  C8. A comments file that does not exist gives no entries, a commit-details file that
  does not exist gives the empty LOC mapping, and a task-type table that does not exist or
  cannot be loaded gives the empty lookup. Processing goes on: whenever the commit-details
  document is read without an exception (as it is when the file does not exist) and no
  comments file fails to open (a file that does not exist is not opened),
  \<^verbatim>\<open>process_agent_data\<close> returns the merge of what the three comments files hold, each
  missing one holding nothing, with the LOC mapping and the lookup. For each of the five
  files, the agent is processed exactly as if the file held an empty document, and an
  agent directory with none of the files gives the empty list of records.
\<close>

theorem C8_missing_file_is_empty_source:
  "extract_comments_with_details fmt Missing comment_category = Inr []
   \<and> extracted_in_order fmt comment_category Missing = []
   \<and> calculate_loc Missing = Inr Map.empty
   \<and> load_task_types CsvMissing = Map.empty
   \<and> load_task_types CsvError = Map.empty
   \<and> (calculate_loc (pr_commit_details agent_path) = Inr pr_loc_data
        \<and> pr_comments agent_path \<noteq> Unreadable
        \<and> pr_review_comments agent_path \<noteq> Unreadable
        \<and> pr_reviews agent_path \<noteq> Unreadable \<longrightarrow>
      process_agent_data fmt agent_name agent_path =
        Inr (map (merge_entry agent_name
                    (load_task_types (gpt_conventional_commits agent_path)) pr_loc_data)
               (extracted_in_order fmt ''PR_Comment'' (pr_comments agent_path)
                @ extracted_in_order fmt ''Review_Comment'' (pr_review_comments agent_path)
                @ extracted_in_order fmt ''Review_Summary'' (pr_reviews agent_path))))
   \<and> process_agent_data fmt agent_name (agent_path\<lparr>pr_comments := Missing\<rparr>)
       = process_agent_data fmt agent_name (agent_path\<lparr>pr_comments := Readable [] None\<rparr>)
   \<and> process_agent_data fmt agent_name (agent_path\<lparr>pr_review_comments := Missing\<rparr>)
       = process_agent_data fmt agent_name (agent_path\<lparr>pr_review_comments := Readable [] None\<rparr>)
   \<and> process_agent_data fmt agent_name (agent_path\<lparr>pr_reviews := Missing\<rparr>)
       = process_agent_data fmt agent_name (agent_path\<lparr>pr_reviews := Readable [] None\<rparr>)
   \<and> process_agent_data fmt agent_name (agent_path\<lparr>pr_commit_details := Missing\<rparr>)
       = process_agent_data fmt agent_name (agent_path\<lparr>pr_commit_details := Readable [] None\<rparr>)
   \<and> process_agent_data fmt agent_name (agent_path\<lparr>gpt_conventional_commits := CsvMissing\<rparr>)
       = process_agent_data fmt agent_name (agent_path\<lparr>gpt_conventional_commits := CsvRows []\<rparr>)
   \<and> process_agent_data fmt agent_name (agent_path\<lparr>gpt_conventional_commits := CsvError\<rparr>)
       = process_agent_data fmt agent_name (agent_path\<lparr>gpt_conventional_commits := CsvRows []\<rparr>)
   \<and> process_agent_data fmt agent_name
        \<lparr>gpt_conventional_commits = CsvMissing, pr_commit_details = Missing,
         pr_comments = Missing, pr_review_comments = Missing, pr_reviews = Missing\<rparr> = Inr []"
proof -
  have base: "extract_comments_with_details fmt Missing comment_category = Inr []"
    "extracted_in_order fmt comment_category Missing = []"
    "calculate_loc Missing = Inr Map.empty"
    "load_task_types CsvMissing = Map.empty"
    "load_task_types CsvError = Map.empty"
    by (simp_all add: extract_comments_with_details_def extracted_in_order_def
        calculate_loc_def load_task_types_def)
  have none: "process_agent_data fmt agent_name
        \<lparr>gpt_conventional_commits = CsvMissing, pr_commit_details = Missing,
         pr_comments = Missing, pr_review_comments = Missing, pr_reviews = Missing\<rparr> = Inr []"
    by (simp add: extract_comments_with_details_def calculate_loc_def load_task_types_def
        process_agent_data_def)
  from base none missing_file_as_empty_document [of fmt agent_name agent_path]
    process_agent_data_returns [of agent_path pr_loc_data fmt agent_name]
  show ?thesis by blast
qed

theorem C8_missing_file_is_empty_source_witness:
  "calculate_loc (pr_commit_details only_reviews) = Inr Map.empty
   \<and> gpt_conventional_commits only_reviews = CsvError
   \<and> pr_commit_details only_reviews = Missing
   \<and> pr_comments only_reviews = Missing
   \<and> pr_review_comments only_reviews = Missing
   \<and> pr_reviews only_reviews \<noteq> Unreadable
   \<and> process_agent_data (\<lambda>v. []) ''delta'' only_reviews = Inr only_reviews_rows
   \<and> only_reviews_rows \<noteq> []"
proof -
  have h: "calculate_loc (pr_commit_details only_reviews) = Inr Map.empty"
    "pr_comments only_reviews \<noteq> Unreadable"
    "pr_review_comments only_reviews \<noteq> Unreadable"
    "pr_reviews only_reviews \<noteq> Unreadable"
    and f: "gpt_conventional_commits only_reviews = CsvError"
    "pr_commit_details only_reviews = Missing"
    "pr_comments only_reviews = Missing"
    "pr_review_comments only_reviews = Missing"
    by (simp_all add: only_reviews_def calculate_loc_def)
  have e: "extracted_in_order (\<lambda>v. []) ''Review_Summary'' (pr_reviews only_reviews)
      = [\<lparr>extracted_entry.PR_ID = ''9'',
          extracted_entry.Comment_Body = JStr ''Review State: CHANGES_REQUESTED'',
          extracted_entry.User_Login = JStr ''eve'',
          extracted_entry.User_Type = JStr ''User'',
          extracted_entry.Comment_Category = ''Review_Summary''\<rparr>]"
    by (simp add: only_reviews_def extracted_in_order_def entries_in_order_def pr_id_of_def
        extract_entry_def entry_body_def py_str_def)
  have e0: "\<And>cat. extracted_in_order (\<lambda>v. []) cat Missing = []"
    by (simp add: extracted_in_order_def)
  from C8_missing_file_is_empty_source
         [of "\<lambda>v. []" "''PR_Comment''" only_reviews Map.empty "''delta''"] h
  have "process_agent_data (\<lambda>v. []) ''delta'' only_reviews =
        Inr (map (merge_entry ''delta''
                    (load_task_types (gpt_conventional_commits only_reviews)) Map.empty)
               (extracted_in_order (\<lambda>v. []) ''PR_Comment'' (pr_comments only_reviews)
                @ extracted_in_order (\<lambda>v. []) ''Review_Comment'' (pr_review_comments only_reviews)
                @ extracted_in_order (\<lambda>v. []) ''Review_Summary'' (pr_reviews only_reviews)))"
    by blast
  then have "process_agent_data (\<lambda>v. []) ''delta'' only_reviews = Inr only_reviews_rows"
    by (simp add: e e0 f load_task_types_def merge_entry_def only_reviews_rows_def)
  with h f show ?thesis by (simp add: only_reviews_rows_def)
qed

section \<open>A run with nothing to write\<close>

lemma agents_loop_no_records:
  "\<forall>a\<in>set agent_dirs. process_agent_data fmt (fst a) (snd a) = Inr [] \<Longrightarrow>
     agents_loop fmt agent_dirs all_data = Inr all_data"
proof (induction agent_dirs arbitrary: all_data)
  case Nil
  show ?case by simp
next
  case (Cons a agent_dirs)
  obtain agent_name agent_path where a: "a = (agent_name, agent_path)" by (cases a)
  from Cons.prems have "process_agent_data fmt agent_name agent_path = Inr []"
    and "\<forall>a\<in>set agent_dirs. process_agent_data fmt (fst a) (snd a) = Inr []"
    by (simp_all add: a)
  with Cons.IH [of all_data] show ?case by (simp add: a)
qed

text \<open>
  C9. When the base directory is absent, holds no agent directory, or every agent gives
  zero records, \<^verbatim>\<open>main\<close> returns without raising, with the message of its case, and
  writes no output file.
\<close>

theorem C9_nothing_to_do:
  assumes "base_dir = None \<or> base_dir = Some []
     \<or> (\<exists>agent_dirs. base_dir = Some agent_dirs
           \<and> (\<forall>a\<in>set agent_dirs. process_agent_data fmt (fst a) (snd a) = Inr []))"
  shows "\<exists>out. main fmt base_dir = Inr out \<and> output_csv out = None
           \<and> out = (if base_dir = None then BaseDirNotFound
                    else if base_dir = Some [] then NoAgentDirs else NoDataProcessed)"
proof -
  consider "base_dir = None" | "base_dir = Some []"
    | agent_dirs where "base_dir = Some agent_dirs" "agent_dirs \<noteq> []"
        "\<forall>a\<in>set agent_dirs. process_agent_data fmt (fst a) (snd a) = Inr []"
    using assms by (cases base_dir) auto
  then show ?thesis
  proof cases
    case 1
    then show ?thesis by (simp add: main_def)
  next
    case 2
    then show ?thesis by (simp add: main_def)
  next
    case 3
    from agents_loop_no_records [OF 3(3), of "[]"] 3(1,2)
    show ?thesis by (simp add: main_def)
  qed
qed

theorem C9_nothing_to_do_witness:
  "main (\<lambda>v. []) None = Inr BaseDirNotFound \<and> output_csv BaseDirNotFound = None
   \<and> main (\<lambda>v. []) (Some []) = Inr NoAgentDirs \<and> output_csv NoAgentDirs = None
   \<and> process_agent_data (\<lambda>v. []) ''gamma'' all_missing = Inr []
   \<and> main (\<lambda>v. []) (Some [(''gamma'', all_missing)]) = Inr NoDataProcessed
   \<and> output_csv NoDataProcessed = None"
proof -
  have g: "process_agent_data (\<lambda>v. []) ''gamma'' all_missing = Inr []"
    by (rule all_missing_processed)
  then have h: "\<exists>agent_dirs. Some [(''gamma'', all_missing)] = Some agent_dirs
           \<and> (\<forall>a\<in>set agent_dirs. process_agent_data (\<lambda>v. []) (fst a) (snd a) = Inr [])"
    by simp
  from C9_nothing_to_do [of None "\<lambda>v. []"] C9_nothing_to_do [of "Some []" "\<lambda>v. []"]
    C9_nothing_to_do [of "Some [(''gamma'', all_missing)]" "\<lambda>v. []", OF disjI2 [OF disjI2 [OF h]]]
    g
  show ?thesis by simp
qed

section \<open>Faults in the documents\<close>

text \<open>
  Whatever ends the iteration over a comments document, the function returns the entries
  that come before the first exception. A commit-details document whose iteration ends
  with an exception makes \<^verbatim>\<open>process_agent_data\<close> raise, whatever pairs come before.
\<close>

lemma extract_comments_fault_caught:
  "extract_comments_with_details fmt (Readable kvs fault) comment_category
     = Inr (extracted_in_order fmt comment_category (Readable kvs None))"
  by (simp add: extract_comments_with_details_def extracted_in_order_def kvitems_loop_fst)

lemma loc_loop_fault_raises: "\<exists>e'. loc_loop kvs (Some e) m = Inl e'"
proof (induction kvs arbitrary: m)
  case Nil
  show ?case by simp
next
  case (Cons kv kvs)
  obtain fn commits where kv: "kv = (fn, commits)" by (cases kv)
  show ?case
  proof (cases "loc_of_commits commits")
    case (Inl e1)
    then show ?thesis unfolding kv loc_loop_step by simp
  next
    case (Inr v)
    from Cons.IH [of "m(pr_id_of fn \<mapsto> v)"] obtain e' where
      "loc_loop kvs (Some e) (m(pr_id_of fn \<mapsto> v)) = Inl e'" ..
    then show ?thesis unfolding kv loc_loop_step Inr by (simp only: sum.case) blast
  qed
qed

lemma process_agent_data_commit_details_fault:
  "\<exists>e'. process_agent_data fmt agent_name (agent_path\<lparr>pr_commit_details := Readable kvs (Some e)\<rparr>)
     = Inl e'"
proof -
  from loc_loop_fault_raises [of kvs e Map.empty] obtain e' where
    "loc_loop kvs (Some e) Map.empty = Inl e'" ..
  then show ?thesis by (simp add: process_agent_data_def calculate_loc_def)
qed

text \<open>
  C1, at an input where the script does not do what the claim says. A comments document
  that is cut off is harmless: the pair read before the cut is used, the agent is
  processed and the batch is written. The same fault in the commit-details document,
  which is read outside any \<^verbatim>\<open>try\<close>, leaves \<^verbatim>\<open>process_agent_data\<close> and \<^verbatim>\<open>main\<close> as an
  exception: nothing is written, also not the rows of the other agent.
\<close>

theorem C1_commit_details_fault_aborts_batch:
  "process_agent_data fmt ''beta'' (beta\<lparr>pr_comments := truncated_comments\<rparr>) = Inr beta_rows
   \<and> process_agent_data fmt ''beta'' (beta\<lparr>pr_commit_details := truncated_commit_details\<rparr>)
       = Inl IncompleteJSONError
   \<and> main fmt (Some [(''beta'', beta\<lparr>pr_comments := truncated_comments\<rparr>), (''alpha'', alpha)])
       = Inr (OutputSaved (beta_rows @ alpha_rows))
   \<and> main fmt (Some [(''beta'', beta\<lparr>pr_commit_details := truncated_commit_details\<rparr>),
                     (''alpha'', alpha)])
       = Inl IncompleteJSONError"
proof -
  have 1: "process_agent_data fmt ''beta'' (beta\<lparr>pr_comments := truncated_comments\<rparr>)
      = Inr beta_rows"
    by (simp add: beta_def beta_rows_def truncated_comments_def process_agent_data_def
      calculate_loc_def load_task_types_def extract_comments_with_details_def pr_id_of_def
      extract_entry_def entry_body_def merge_entry_def py_str_def)
  have 2: "process_agent_data fmt ''beta'' (beta\<lparr>pr_commit_details := truncated_commit_details\<rparr>)
       = Inl IncompleteJSONError"
    by (simp add: beta_def truncated_commit_details_def process_agent_data_def
      calculate_loc_def pr_id_of_def)
  have 3: "beta_rows @ alpha_rows \<noteq> []" by (simp add: beta_rows_def)
  show ?thesis
    using 3 by (simp add: main_def 1 2 alpha_processed)
qed

end
